theory Spec2Isabelle
  imports Main
begin

section \<open>The file-access tracer of sdf (\<open>traceCmd\<close> in main.go)\<close>

text \<open>
  \<open>sdf trace <command>\<close> starts the command under \<open>strace -f -e trace=openat\<close>, reads
  the diagnostic stream of strace line by line and prints, relative to \<open>$HOME\<close>, the
  quoted path of every line whose path starts with \<open>$HOME\<close>.

  Go strings are byte sequences: \<open>len\<close> counts bytes and \<open>s[i:]\<close> slices bytes, so a Go
  string is a \<open>string\<close> (a list of \<open>char\<close>) here. Standard output is the list of the
  arguments of the \<open>fmt.Println\<close> calls, in order; each of them is one output line.
\<close>

subsection \<open>Bytes and the library functions the loop calls\<close>

definition DQUOTE :: char where
  "DQUOTE = CHR 0x22"

definition NEWLINE :: char where
  "NEWLINE = CHR 0x0A"

definition SEPARATOR :: char where
  "SEPARATOR = CHR ''/''"

text \<open>
  \<open>strings.Split(s, sep)\<close> for a separator of one byte, after the loop of the library's
  \<open>genSplit\<close>: while the separator occurs, the text before its first occurrence is the
  next fragment and the text after it is split further; what is left is the last
  fragment. The result has one fragment more than \<open>s\<close> has separators.
\<close>

function Split :: "string \<Rightarrow> char \<Rightarrow> string list" where
  "Split s sep =
     (if sep \<in> set s
      then takeWhile (\<lambda>c. c \<noteq> sep) s # Split (tl (dropWhile (\<lambda>c. c \<noteq> sep) s)) sep
      else [s])"
  by pat_completeness auto
termination
proof (relation "measure (\<lambda>(s, sep). length s)")
  show "wf (measure (\<lambda>(s, sep). length s))" by simp
next
  fix s :: string and sep :: char
  assume "sep \<in> set s"
  then have "dropWhile (\<lambda>c. c \<noteq> sep) s \<noteq> []" by simp
  then have "length (tl (dropWhile (\<lambda>c. c \<noteq> sep) s)) < length (dropWhile (\<lambda>c. c \<noteq> sep) s)"
    by simp
  also have "\<dots> \<le> length s" by (rule length_dropWhile_le)
  finally show "((tl (dropWhile (\<lambda>c. c \<noteq> sep) s), sep), (s, sep)) \<in> measure (\<lambda>(s, sep). length s)"
    by simp
qed

declare Split.simps [simp del]

text \<open>\<open>strings.HasPrefix(s, prefix)\<close> is \<open>len(s) >= len(prefix) && s[:len(prefix)] == prefix\<close>.\<close>

definition HasPrefix :: "string \<Rightarrow> string \<Rightarrow> bool" where
  "HasPrefix s prefix \<longleftrightarrow> length prefix \<le> length s \<and> take (length prefix) s = prefix"

text \<open>A path is absolute (\<open>filepath.IsAbs\<close> on Unix) when it begins with the separator.\<close>

definition IsAbs :: "string \<Rightarrow> bool" where
  "IsAbs path \<longleftrightarrow> HasPrefix path [SEPARATOR]"

text \<open>
  The run-time panics of \<open>traceCmd\<close>: a slice expression \<open>s[i:]\<close> with \<open>i > len(s)\<close>,
  the index expression \<open>inCmd[0]\<close> on an empty slice, and \<open>panic(err)\<close> after a failed
  \<open>StderrPipe\<close>.
\<close>

datatype panic = SliceBoundsOutOfRange | IndexOutOfRange | StderrPipeFailed

definition slice_from :: "string \<Rightarrow> nat \<Rightarrow> panic + string" where
  "slice_from s i = (if length s < i then Inl SliceBoundsOutOfRange else Inr (drop i s))"

subsection \<open>The diagnostic stream\<close>

text \<open>
  The read end of the pipe, behind a \<open>bufio.Reader\<close>: the bytes not yet read, and how the
  stream ends once they are used up, with \<open>io.EOF\<close> (the write end was closed) or with
  an error that is not \<open>io.EOF\<close> and that every later read returns again.

  \<open>ReadString(delim)\<close> returns the bytes up to and including the first \<open>delim\<close> and no
  error; when no \<open>delim\<close> is left it returns the bytes that are left together with the
  error that ends the stream.
\<close>

datatype read_error = EOF | ErrOther

record reader =
  pending :: string
  ending :: read_error

definition ReadString :: "reader \<Rightarrow> char \<Rightarrow> string \<times> read_error option \<times> reader" where
  "ReadString b delim =
     (if delim \<in> set (pending b)
      then (takeWhile (\<lambda>c. c \<noteq> delim) (pending b) @ [delim], None,
            b\<lparr>pending := tl (dropWhile (\<lambda>c. c \<noteq> delim) (pending b))\<rparr>)
      else (pending b, Some (ending b), b\<lparr>pending := []\<rparr>))"

subsection \<open>What the program does to the outside\<close>

text \<open>
  \<open>stdout\<close>: the lines printed so far; \<open>spawned\<close>: the argument vectors of the
  processes started so far; \<open>reaped\<close>: how many of them have been waited for.
\<close>

record world =
  stdout :: "string list"
  spawned :: "string list list"
  reaped :: nat

definition Println :: "string \<Rightarrow> world \<Rightarrow> world" where
  "Println s w = w\<lparr>stdout := stdout w @ [s]\<rparr>"

text \<open>
  What \<open>traceCmd\<close> reads from the outside: \<open>userPath\<close> is \<open>os.Getenv("HOME")\<close>,
  \<open>LookPath file\<close> says whether \<open>exec.LookPath(file)\<close> returns no error,
  \<open>StderrPipe_ok\<close> whether \<open>StderrPipe\<close> returns no error, \<open>child_stderr args\<close> is the
  diagnostic stream of the process started with the argument vector \<open>args\<close>, and
  \<open>child_exit args\<close> its exit status.
\<close>

record env =
  userPath :: string
  LookPath :: "string \<Rightarrow> bool"
  StderrPipe_ok :: bool
  child_stderr :: "string list \<Rightarrow> reader"
  child_exit :: "string list \<Rightarrow> int"

text \<open>\<open>Cmd.Wait\<close> returns an error exactly when the exit status is not zero.\<close>

datatype exit_error = ExitError int

definition Wait :: "int \<Rightarrow> exit_error option" where
  "Wait status = (if status = 0 then None else Some (ExitError status))"

subsection \<open>The body of the read loop\<close>

text \<open>
  Lines 139 and 140: the line is split at the double quotes, and it has a path, the
  second fragment, when there are more than two fragments.
\<close>

definition parse_line :: "string \<Rightarrow> string option" where
  "parse_line line =
     (let temp = Split line DQUOTE
      in if length temp > 2 then Some (temp ! 1) else None)"

text \<open>
  Lines 141 to 146, on the path \<open>temp[1]\<close>: \<open>Inr (Some s)\<close> when \<open>s\<close> is printed,
  \<open>Inr None\<close> when nothing is printed, \<open>Inl\<close> when the slice expression panics.
\<close>

definition normalize_path :: "string \<Rightarrow> string \<Rightarrow> panic + string option" where
  "normalize_path path homeDir =
     (let uplen = length homeDir
      in if HasPrefix path homeDir
         then if length path = uplen
              then Inr None
              else (case slice_from path (uplen + 1) of
                      Inl p \<Rightarrow> Inl p
                    | Inr s \<Rightarrow> Inr (Some s))
         else Inr None)"

definition loop_body :: "string \<Rightarrow> string \<Rightarrow> panic + string option" where
  "loop_body homeDir line =
     (case parse_line line of
        None \<Rightarrow> Inr None
      | Some path \<Rightarrow> normalize_path path homeDir)"

subsection \<open>The read loop and \<open>traceCmd\<close>\<close>

text \<open>
  Lines 134 to 148. The loop ends only when \<open>ReadString\<close> returns \<open>io.EOF\<close>, and the
  bytes returned together with \<open>io.EOF\<close> are dropped. With any other error the bytes
  returned are handled like a line and the loop goes on. The result is \<open>None\<close> when
  the loop never ends.
\<close>

partial_function (option) trace_loop ::
    "string \<Rightarrow> reader \<Rightarrow> world \<Rightarrow> (panic + world) option" where
  "trace_loop homeDir scanner w =
     (case ReadString scanner NEWLINE of
        (line, err, scanner') \<Rightarrow>
          if err = Some EOF then Some (Inr w)
          else (case loop_body homeDir line of
                  Inl p \<Rightarrow> Some (Inl p)
                | Inr None \<Rightarrow> trace_loop homeDir scanner' w
                | Inr (Some s) \<Rightarrow> trace_loop homeDir scanner' (Println s w)))"

declare trace_loop.simps [code]

text \<open>
  \<open>traceCmd\<close>, lines 112 to 150. \<open>Start\<close> adds the argument vector to \<open>spawned\<close>; its
  error is not looked at, as in the source. The error of \<open>Wait\<close> is not looked at
  either.
\<close>

definition traceCmd :: "env \<Rightarrow> string list \<Rightarrow> world \<Rightarrow> (panic + world) option" where
  "traceCmd e inCmd w =
     (if \<not> LookPath e ''strace''
      then Some (Inr (Println ''Strace not found. Check your $PATH or install it.'' w))
      else (case inCmd of
              [] \<Rightarrow> Some (Inl IndexOutOfRange)
            | prog # _ \<Rightarrow>
                if \<not> LookPath e prog
                then Some (Inr (Println ''Binary not executable or doesn't exist. Cannot continue.'' w))
                else
                  let straceArgs = [''-f'', ''-e'', ''trace=openat''];
                      fullArgs = straceArgs @ inCmd;
                      Args = [''strace''] @ fullArgs
                  in if \<not> StderrPipe_ok e then Some (Inl StderrPipeFailed)
                     else (case trace_loop (userPath e) (child_stderr e Args)
                                  (w\<lparr>spawned := spawned w @ [Args]\<rparr>) of
                             None \<Rightarrow> None
                           | Some (Inl p) \<Rightarrow> Some (Inl p)
                           | Some (Inr w') \<Rightarrow>
                               let _ = Wait (child_exit e Args)
                               in Some (Inr (w'\<lparr>reaped := reaped w' + 1\<rparr>)))))"

subsection \<open>Streams of whole lines\<close>

text \<open>
  The stream that strace writes when it writes the lines \<open>ls\<close>, each followed by a
  newline, and what the loop body prints for one line that was read (nothing or one
  string).
\<close>

definition lines_stream :: "string list \<Rightarrow> string" where
  "lines_stream ls = concat (map (\<lambda>l. l @ [NEWLINE]) ls)"

definition emitted :: "string \<Rightarrow> string \<Rightarrow> string option" where
  "emitted homeDir line = (case loop_body homeDir line of Inl p \<Rightarrow> None | Inr r \<Rightarrow> r)"

subsection \<open>Example inputs\<close>

text \<open>
  Lines as strace writes them, without the newline that ends them, and the state of
  the outside before \<open>traceCmd\<close> runs.
\<close>

abbreviation bashrc_line :: string where
  \<open>bashrc_line \<equiv> ''openat(AT_FDCWD, "/home/alice/.bashrc", O_RDONLY) = 3''\<close>

abbreviation passwd_line :: string where
  \<open>passwd_line \<equiv> ''openat(AT_FDCWD, "/etc/passwd", O_RDONLY) = 3''\<close>

abbreviation home_line :: string where
  \<open>home_line \<equiv> ''openat(AT_FDCWD, "/home/alice", O_RDONLY|O_DIRECTORY) = 3''\<close>

abbreviation sibling_line :: string where
  \<open>sibling_line \<equiv> ''openat(AT_FDCWD, "/home/alicex/.bashrc", O_RDONLY) = 3''\<close>

abbreviation relative_line :: string where
  \<open>relative_line \<equiv> ''openat(AT_FDCWD, "notes.txt", O_RDONLY) = 3''\<close>

abbreviation cut_line :: string where
  \<open>cut_line \<equiv> ''openat(AT_FDCWD, "/home/alice/.bash''\<close>

abbreviation execve_line :: string where
  \<open>execve_line \<equiv> ''execve("/home/alice/bin/tool", ["tool"], 0x7ffc) = 0''\<close>

abbreviation start_world :: world where
  "start_world \<equiv> \<lparr>stdout = [], spawned = [], reaped = 0\<rparr>"

abbreviation cat_env :: "(string \<Rightarrow> bool) \<Rightarrow> env" where
  "cat_env found \<equiv>
     \<lparr>userPath = ''/home/alice'', LookPath = found, StderrPipe_ok = True,
      child_stderr = (\<lambda>args. \<lparr>pending = lines_stream [bashrc_line, passwd_line, bashrc_line],
                                ending = EOF\<rparr>),
      child_exit = (\<lambda>args. 1)\<rparr>"

section \<open>Properties\<close>

subsection \<open>The library functions\<close>

lemma HasPrefix_append: "HasPrefix (p @ s) p"
  by (simp add: HasPrefix_def)

lemma HasPrefix_length: "HasPrefix s p \<Longrightarrow> length p \<le> length s"
  by (simp add: HasPrefix_def)

lemma HasPrefix_refl: "HasPrefix p p"
  by (simp add: HasPrefix_def)

lemma takeWhile_until: "y \<notin> set a \<Longrightarrow> takeWhile (\<lambda>c. c \<noteq> y) (a @ y # b) = a"
  by (induction a) auto

lemma dropWhile_until: "y \<notin> set a \<Longrightarrow> dropWhile (\<lambda>c. c \<noteq> y) (a @ y # b) = y # b"
  by (induction a) auto

lemma Split_no_sep: "sep \<notin> set s \<Longrightarrow> Split s sep = [s]"
  by (simp add: Split.simps)

lemma Split_first: "sep \<notin> set a \<Longrightarrow> Split (a @ sep # b) sep = a # Split b sep"
proof -
  assume a: "sep \<notin> set a"
  then have t: "takeWhile (\<lambda>c. c \<noteq> sep) (a @ sep # b) = a"
    by (simp add: takeWhile_until)
  from a have d: "dropWhile (\<lambda>c. c \<noteq> sep) (a @ sep # b) = sep # b"
    by (simp add: dropWhile_until)
  show ?thesis
    by (subst Split.simps) (simp add: t d)
qed

lemma length_Split: "length (Split s sep) = Suc (count_list s sep)"
proof (induction s sep rule: Split.induct)
  case (1 s sep)
  show ?case
  proof (cases "sep \<in> set s")
    case False
    then show ?thesis by (simp add: Split_no_sep)
  next
    case True
    then obtain a b where s: "s = a @ sep # b" and a: "sep \<notin> set a"
      by (auto dest: split_list_first)
    from a have d: "tl (dropWhile (\<lambda>c. c \<noteq> sep) s) = b"
      by (simp add: s dropWhile_until)
    from a have c: "count_list a sep = 0" by simp
    from "1.IH" [OF True] have "length (Split b sep) = Suc (count_list b sep)"
      by (simp add: d)
    then show ?thesis
      by (simp add: s Split_first [OF a] c)
  qed
qed

lemma parse_line_quoted:
  assumes "DQUOTE \<notin> set a" and "DQUOTE \<notin> set p"
  shows "parse_line (a @ DQUOTE # p @ DQUOTE # b) = Some p"
proof -
  have "Split (a @ DQUOTE # p @ DQUOTE # b) DQUOTE = a # p # Split b DQUOTE"
    using assms by (simp add: Split_first)
  moreover have "0 < length (Split b DQUOTE)" by (simp add: length_Split)
  ultimately show ?thesis by (simp add: parse_line_def)
qed

lemma parse_line_None_iff: "parse_line line = None \<longleftrightarrow> count_list line DQUOTE < 2"
  by (auto simp add: parse_line_def Let_def length_Split)

lemma two_quotes_decompose:
  assumes "2 \<le> count_list line DQUOTE"
  shows "\<exists>a p b. line = a @ DQUOTE # p @ DQUOTE # b \<and> DQUOTE \<notin> set a \<and> DQUOTE \<notin> set p"
proof -
  from assms have "DQUOTE \<in> set line"
    by (metis count_list_0_iff not_numeral_le_zero)
  then obtain a r where l: "line = a @ DQUOTE # r" and a: "DQUOTE \<notin> set a"
    by (auto dest: split_list_first)
  from a have "count_list a DQUOTE = 0" by simp
  with assms l have "1 \<le> count_list r DQUOTE" by simp
  then have "DQUOTE \<in> set r"
    by (metis count_list_0_iff not_one_le_zero)
  then obtain p b where r: "r = p @ DQUOTE # b" and p: "DQUOTE \<notin> set p"
    by (auto dest: split_list_first)
  from l r a p show ?thesis by blast
qed

subsection \<open>The loop body never panics\<close>

lemma normalize_path_no_panic: "normalize_path path homeDir \<noteq> Inl x"
  by (auto simp add: normalize_path_def Let_def slice_from_def dest: HasPrefix_length)

lemma normalize_path_Some_iff:
  "normalize_path path homeDir = Inr (Some s) \<longleftrightarrow>
     HasPrefix path homeDir \<and> length homeDir < length path \<and> s = drop (Suc (length homeDir)) path"
  by (auto simp add: normalize_path_def Let_def slice_from_def dest: HasPrefix_length)

lemma loop_body_no_panic: "loop_body homeDir line \<noteq> Inl x"
  by (simp add: loop_body_def normalize_path_no_panic split: option.split)

subsection \<open>One step of the read loop\<close>

lemma ReadString_line:
  "NEWLINE \<notin> set l \<Longrightarrow>
     ReadString \<lparr>pending = l @ NEWLINE # rest, ending = e\<rparr> NEWLINE =
       (l @ [NEWLINE], None, \<lparr>pending = rest, ending = e\<rparr>)"
  by (simp add: ReadString_def takeWhile_until dropWhile_until)

lemma ReadString_end:
  "NEWLINE \<notin> set t \<Longrightarrow>
     ReadString \<lparr>pending = t, ending = e\<rparr> NEWLINE = (t, Some e, \<lparr>pending = [], ending = e\<rparr>)"
  by (simp add: ReadString_def)

lemma trace_loop_line:
  "NEWLINE \<notin> set l \<Longrightarrow>
     trace_loop homeDir \<lparr>pending = l @ NEWLINE # rest, ending = e\<rparr> w =
       (case loop_body homeDir (l @ [NEWLINE]) of
          Inl p \<Rightarrow> Some (Inl p)
        | Inr None \<Rightarrow> trace_loop homeDir \<lparr>pending = rest, ending = e\<rparr> w
        | Inr (Some s) \<Rightarrow> trace_loop homeDir \<lparr>pending = rest, ending = e\<rparr> (Println s w))"
  by (subst trace_loop.simps) (simp add: ReadString_line)

lemma trace_loop_partial_line:
  "NEWLINE \<notin> set t \<Longrightarrow> trace_loop homeDir \<lparr>pending = t, ending = EOF\<rparr> w = Some (Inr w)"
  by (subst trace_loop.simps) (simp add: ReadString_end)

subsection \<open>The read loop on a stream that ends with \<open>io.EOF\<close>\<close>

lemma lines_stream_Nil: "lines_stream [] = []"
  by (simp add: lines_stream_def)

lemma lines_stream_Cons: "lines_stream (l # ls) @ t = l @ NEWLINE # (lines_stream ls @ t)"
  by (simp add: lines_stream_def)

lemma emitted_cases:
  "loop_body homeDir line = Inr r \<Longrightarrow> emitted homeDir line = r"
  by (simp add: emitted_def)

lemma Println_stdout: "stdout (Println s w) = stdout w @ [s]"
  by (simp add: Println_def)

lemma Println_update:
  "Println s w\<lparr>stdout := stdout (Println s w) @ out\<rparr> = w\<lparr>stdout := stdout w @ s # out\<rparr>"
  by (simp add: Println_def)

lemma trace_loop_lines:
  assumes "\<forall>l\<in>set ls. NEWLINE \<notin> set l" and "NEWLINE \<notin> set t"
  shows "trace_loop homeDir \<lparr>pending = lines_stream ls @ t, ending = EOF\<rparr> w =
           Some (Inr (w\<lparr>stdout := stdout w @
                        List.map_filter (\<lambda>l. emitted homeDir (l @ [NEWLINE])) ls\<rparr>))"
  using assms(1)
proof (induction ls arbitrary: w)
  case Nil
  show ?case
    using assms(2) by (simp add: lines_stream_Nil trace_loop_partial_line map_filter_simps)
next
  case (Cons l ls)
  from Cons.prems have nl: "NEWLINE \<notin> set l" and rest: "\<forall>l\<in>set ls. NEWLINE \<notin> set l"
    by simp_all
  note IH = Cons.IH [OF rest]
  obtain r where r: "loop_body homeDir (l @ [NEWLINE]) = Inr r"
    using loop_body_no_panic [of homeDir "l @ [NEWLINE]"]
    by (cases "loop_body homeDir (l @ [NEWLINE])") auto
  show ?case
  proof (cases r)
    case None
    with r show ?thesis
      by (simp add: lines_stream_Cons trace_loop_line [OF nl] IH emitted_cases map_filter_simps)
  next
    case (Some s)
    with r show ?thesis
      by (simp add: lines_stream_Cons trace_loop_line [OF nl] IH emitted_cases map_filter_simps
            Println_update)
  qed
qed

lemma lines_decompose:
  "\<exists>ls t. s = lines_stream ls @ t \<and> (\<forall>l\<in>set ls. NEWLINE \<notin> set l) \<and> NEWLINE \<notin> set t"
proof (induction s)
  case Nil
  have "[] = lines_stream [] @ [] \<and> (\<forall>l\<in>set ([]::string list). NEWLINE \<notin> set l) \<and> NEWLINE \<notin> set []"
    by (simp add: lines_stream_Nil)
  then show ?case by blast
next
  case (Cons c s)
  then obtain ls t where s: "s = lines_stream ls @ t"
    and ls: "\<forall>l\<in>set ls. NEWLINE \<notin> set l" and t: "NEWLINE \<notin> set t"
    by blast
  show ?case
  proof (cases "c = NEWLINE")
    case True
    have "c # s = lines_stream ([] # ls) @ t"
      using True s by (simp add: lines_stream_def)
    moreover have "\<forall>l\<in>set ([] # ls). NEWLINE \<notin> set l" using ls by simp
    ultimately show ?thesis using t by blast
  next
    case False
    show ?thesis
    proof (cases ls)
      case Nil
      have "c # s = lines_stream [] @ (c # t)"
        using s Nil by (simp add: lines_stream_def)
      moreover have "NEWLINE \<notin> set (c # t)" using False t by auto
      ultimately show ?thesis using ls Nil by blast
    next
      case (Cons l ls')
      have "c # s = lines_stream ((c # l) # ls') @ t"
        using s Cons by (simp add: lines_stream_def)
      moreover have "\<forall>l\<in>set ((c # l) # ls'). NEWLINE \<notin> set l"
        using ls Cons False by auto
      ultimately show ?thesis using t by blast
    qed
  qed
qed

lemma trace_loop_EOF_returns:
  "\<exists>out. trace_loop homeDir \<lparr>pending = s, ending = EOF\<rparr> w =
           Some (Inr (w\<lparr>stdout := stdout w @ out\<rparr>))"
proof -
  obtain ls t where "s = lines_stream ls @ t"
    and "\<forall>l\<in>set ls. NEWLINE \<notin> set l" and "NEWLINE \<notin> set t"
    using lines_decompose by blast
  then show ?thesis
    using trace_loop_lines [of ls t homeDir w] by blast
qed

lemma loop_body_Some_iff:
  "loop_body homeDir line = Inr (Some s) \<longleftrightarrow>
     (\<exists>path. parse_line line = Some path \<and> normalize_path path homeDir = Inr (Some s))"
  by (simp add: loop_body_def split: option.split)

lemma emitted_loop_body: "emitted homeDir line = Some s \<longleftrightarrow> loop_body homeDir line = Inr (Some s)"
  by (cases "loop_body homeDir line") (simp_all add: emitted_def)

lemma emitted_Some_iff:
  "emitted homeDir line = Some s \<longleftrightarrow>
     (\<exists>path. parse_line line = Some path \<and> HasPrefix path homeDir \<and>
        length homeDir < length path \<and> s = drop (Suc (length homeDir)) path)"
  by (simp add: emitted_loop_body loop_body_Some_iff normalize_path_Some_iff)

lemma normalize_path_under_home:
  "normalize_path (homeDir @ SEPARATOR # suffix) homeDir = Inr (Some suffix)"
  by (simp add: normalize_path_def HasPrefix_append slice_from_def)

lemma loop_body_home_itself:
  assumes "DQUOTE \<notin> set a" and "DQUOTE \<notin> set homeDir"
  shows "loop_body homeDir (a @ DQUOTE # homeDir @ DQUOTE # b) = Inr None"
  using parse_line_quoted [OF assms, of b]
  by (simp add: loop_body_def normalize_path_def HasPrefix_refl)

text \<open>
  The parts of the exclusion law that hold: the home directory itself, and a path that
  does not begin with the bytes of the home directory, are not printed.
\<close>

lemma normalize_path_excluded:
  "normalize_path homeDir homeDir = Inr None"
  "\<not> HasPrefix path homeDir \<Longrightarrow> normalize_path path homeDir = Inr None"
  by (simp_all add: normalize_path_def HasPrefix_refl)

subsection \<open>A read error that is not \<open>io.EOF\<close> never ends the loop\<close>

lemma ReadString_ending:
  "ReadString b delim = (line, err, b') \<Longrightarrow>
     ending b' = ending b \<and> (err = None \<or> err = Some (ending b))"
  by (auto simp add: ReadString_def split: if_splits)

lemma trace_loop_returns_only_at_EOF:
  assumes "trace_loop homeDir scanner w = Some r"
  shows "ending scanner = EOF"
proof (rule trace_loop.raw_induct [where P = "\<lambda>h s w r. ending s = EOF", OF _ assms])
  fix loop :: "string \<Rightarrow> reader \<Rightarrow> world \<Rightarrow> (panic + world) option"
  fix homeDir scanner w r
  assume IH: "\<And>h s w y. loop h s w = Some y \<Longrightarrow> ending s = EOF"
  assume step: "(case ReadString scanner NEWLINE of
      (line, err, scanner') \<Rightarrow>
        if err = Some EOF then Some (Inr w)
        else case loop_body homeDir line of Inl p \<Rightarrow> Some (Inl p)
             | Inr None \<Rightarrow> loop homeDir scanner' w
             | Inr (Some s) \<Rightarrow> loop homeDir scanner' (Println s w)) = Some r"
  obtain line err scanner' where rs: "ReadString scanner NEWLINE = (line, err, scanner')"
    by (cases "ReadString scanner NEWLINE") auto
  note e = ReadString_ending [OF rs]
  have nb: "loop_body homeDir line \<noteq> Inl x" for x by (rule loop_body_no_panic)
  show "ending scanner = EOF"
  proof (cases "err = Some EOF")
    case True
    with e show ?thesis by auto
  next
    case False
    with step rs nb obtain w' where "loop homeDir scanner' w' = Some r"
      by (auto split: sum.splits option.splits)
    then have "ending scanner' = EOF" by (rule IH)
    with e show ?thesis by simp
  qed
qed

subsection \<open>The example lines\<close>

lemma emitted_bashrc_line: "emitted ''/home/alice'' (bashrc_line @ [NEWLINE]) = Some ''.bashrc''"
  by code_simp

lemma emitted_passwd_line: "emitted ''/home/alice'' (passwd_line @ [NEWLINE]) = None"
  by code_simp

lemma emitted_home_line: "emitted ''/home/alice'' (home_line @ [NEWLINE]) = None"
  by code_simp

lemma parse_execve_line: "parse_line (execve_line @ [NEWLINE]) = Some ''/home/alice/bin/tool''"
  by code_simp

subsection \<open>The path normalizer\<close>

text \<open>
  C1, the normalizer prefix law: for every home directory \<open>homeDir\<close> and every path
  \<open>homeDir + separator + suffix\<close> with a non-empty \<open>suffix\<close>, the normalization returns
  exactly \<open>suffix\<close>.
\<close>

theorem normalize_prefix_law:
  "suffix \<noteq> [] \<Longrightarrow>
     normalize_path (homeDir @ SEPARATOR # suffix) homeDir = Inr (Some suffix)"
  by (simp add: normalize_path_def HasPrefix_append slice_from_def)

theorem normalize_prefix_law_witness:
  "''.bashrc'' \<noteq> [] \<and>
   normalize_path (''/home/alice'' @ SEPARATOR # ''.bashrc'') ''/home/alice'' = Inr (Some ''.bashrc'')"
  using normalize_prefix_law [of "''.bashrc''" "''/home/alice''"] by simp

text \<open>
  C2, the normalizer exclusion law, where the code departs from it: a path that begins
  with the bytes of the home directory but continues with a byte that is not the
  separator (a sibling directory such as \<open>/home/alicex\<close> of \<open>/home/alice\<close>) is not
  excluded. \<open>HasPrefix\<close> is given the home directory without the separator, and the
  slice at \<open>uplen+1\<close> then drops the byte that follows it, so \<open>/.bashrc\<close> is printed
  for \<open>/home/alicex/.bashrc\<close>.
\<close>

theorem normalize_sibling_directory:
  "normalize_path ''/home/alicex/.bashrc'' ''/home/alice'' = Inr (Some ''/.bashrc'') \<and>
   \<not> HasPrefix ''/home/alicex/.bashrc'' (''/home/alice'' @ [SEPARATOR]) \<and>
   trace_loop ''/home/alice'' \<lparr>pending = lines_stream [sibling_line], ending = EOF\<rparr> start_world =
     Some (Inr \<lparr>stdout = [''/.bashrc''], spawned = [], reaped = 0\<rparr>)"
  by code_simp

subsection \<open>The line parser\<close>

text \<open>
  C4, parser robustness: a line that splits at the double quotes into fewer than 3
  fragments has no path, the loop body neither panics nor prints, and when the line was
  read from the stream the loop goes on with the rest of the stream.
\<close>

theorem parser_robust:
  "length (Split line DQUOTE) < 3 \<Longrightarrow>
     parse_line line = None \<and> loop_body homeDir line = Inr None \<and>
     (\<forall>l rest e w. line = l @ [NEWLINE] \<and> NEWLINE \<notin> set l \<longrightarrow>
        trace_loop homeDir \<lparr>pending = l @ NEWLINE # rest, ending = e\<rparr> w =
        trace_loop homeDir \<lparr>pending = rest, ending = e\<rparr> w)"
proof -
  assume short: "length (Split line DQUOTE) < 3"
  then have p: "parse_line line = None" by (simp add: parse_line_def)
  then have b: "loop_body homeDir line = Inr None" by (simp add: loop_body_def)
  have "trace_loop homeDir \<lparr>pending = l @ NEWLINE # rest, ending = e\<rparr> w =
        trace_loop homeDir \<lparr>pending = rest, ending = e\<rparr> w"
    if "line = l @ [NEWLINE]" and "NEWLINE \<notin> set l" for l rest e w
    using that b by (simp add: trace_loop_line)
  with p b show ?thesis by blast
qed

theorem parser_robust_witness:
  "length (Split (cut_line @ [NEWLINE]) DQUOTE) < 3 \<and>
   parse_line (cut_line @ [NEWLINE]) = None \<and>
   loop_body ''/home/alice'' (cut_line @ [NEWLINE]) = Inr None \<and>
   trace_loop ''/home/alice''
     \<lparr>pending = cut_line @ NEWLINE # lines_stream [bashrc_line], ending = EOF\<rparr> start_world =
   trace_loop ''/home/alice''
     \<lparr>pending = lines_stream [bashrc_line], ending = EOF\<rparr> start_world"
proof -
  have h: "length (Split (cut_line @ [NEWLINE]) DQUOTE) < 3"
    by (simp add: length_Split DQUOTE_def NEWLINE_def)
  have nl: "NEWLINE \<notin> set cut_line" by (simp add: NEWLINE_def)
  note t = parser_robust [OF h, of "''/home/alice''"]
  from t have a: "parse_line (cut_line @ [NEWLINE]) = None"
    and b: "loop_body ''/home/alice'' (cut_line @ [NEWLINE]) = Inr None"
    by blast+
  from t nl have c: "trace_loop ''/home/alice''
     \<lparr>pending = cut_line @ NEWLINE # lines_stream [bashrc_line], ending = EOF\<rparr> start_world =
   trace_loop ''/home/alice''
     \<lparr>pending = lines_stream [bashrc_line], ending = EOF\<rparr> start_world"
    by blast
  from h a b c show ?thesis by blast
qed

text \<open>
  C5, parser extraction: from a line \<open>prefix"/home/user/.bashrc"suffix\<close> whose prefix has
  no double quote the parser takes exactly \<open>/home/user/.bashrc\<close>.
\<close>

theorem parser_extraction:
  "DQUOTE \<notin> set prefix \<Longrightarrow>
     parse_line (prefix @ DQUOTE # ''/home/user/.bashrc'' @ DQUOTE # suffix) =
       Some ''/home/user/.bashrc''"
proof -
  assume "DQUOTE \<notin> set prefix"
  moreover have "DQUOTE \<notin> set ''/home/user/.bashrc''" by (simp add: DQUOTE_def)
  ultimately show ?thesis by (rule parse_line_quoted)
qed

theorem parser_extraction_witness:
  \<open>DQUOTE \<notin> set ''openat(AT_FDCWD, '' \<and>
   parse_line ''openat(AT_FDCWD, "/home/user/.bashrc", O_RDONLY|O_CLOEXEC) = 3\<newline>'' =
     Some ''/home/user/.bashrc''\<close>
proof -
  have h: "DQUOTE \<notin> set ''openat(AT_FDCWD, ''" by (simp add: DQUOTE_def)
  show ?thesis
    using h parser_extraction [OF h, of "'', O_RDONLY|O_CLOEXEC) = 3\<newline>''"]
    by (simp add: DQUOTE_def)
qed

text \<open>
  C10: the parser never looks at the name of the call. Every line with at least two
  double quotes has a path, the text between the first and the second double quote,
  whatever stands before and after, and the loop body treats that path as it treats the
  path of an \<open>openat\<close> line. So when that text is a path inside the home directory
  the line is reported: the loop body returns the path relative to the home directory,
  and the loop prints it and goes on with the rest of the stream.
\<close>

theorem parser_ignores_call_name:
  "2 \<le> count_list line DQUOTE \<Longrightarrow>
     \<exists>a p b. line = a @ DQUOTE # p @ DQUOTE # b \<and> DQUOTE \<notin> set a \<and> DQUOTE \<notin> set p \<and>
       parse_line line = Some p \<and> loop_body homeDir line = normalize_path p homeDir \<and>
       (\<forall>suffix. p = homeDir @ SEPARATOR # suffix \<longrightarrow>
          loop_body homeDir line = Inr (Some suffix) \<and>
          (\<forall>l rest e w. line = l @ [NEWLINE] \<and> NEWLINE \<notin> set l \<longrightarrow>
             trace_loop homeDir \<lparr>pending = l @ NEWLINE # rest, ending = e\<rparr> w =
             trace_loop homeDir \<lparr>pending = rest, ending = e\<rparr> (Println suffix w)))"
proof -
  assume "2 \<le> count_list line DQUOTE"
  then obtain a p b where l: "line = a @ DQUOTE # p @ DQUOTE # b"
    and a: "DQUOTE \<notin> set a" and p: "DQUOTE \<notin> set p"
    using two_quotes_decompose by blast
  have parsed: "parse_line line = Some p"
    unfolding l using a p by (rule parse_line_quoted)
  then have body: "loop_body homeDir line = normalize_path p homeDir"
    by (simp add: loop_body_def)
  have reported: "loop_body homeDir line = Inr (Some suffix) \<and>
          (\<forall>l rest e w. line = l @ [NEWLINE] \<and> NEWLINE \<notin> set l \<longrightarrow>
             trace_loop homeDir \<lparr>pending = l @ NEWLINE # rest, ending = e\<rparr> w =
             trace_loop homeDir \<lparr>pending = rest, ending = e\<rparr> (Println suffix w))"
    if "p = homeDir @ SEPARATOR # suffix" for suffix
  proof -
    from that body have s: "loop_body homeDir line = Inr (Some suffix)"
      by (simp add: normalize_path_under_home)
    have "trace_loop homeDir \<lparr>pending = l @ NEWLINE # rest, ending = e\<rparr> w =
            trace_loop homeDir \<lparr>pending = rest, ending = e\<rparr> (Println suffix w)"
      if "line = l @ [NEWLINE]" and "NEWLINE \<notin> set l" for l rest e w
      using that s by (simp add: trace_loop_line)
    with s show ?thesis by blast
  qed
  from l a p parsed body reported show ?thesis by blast
qed

theorem parser_ignores_call_name_witness:
  "2 \<le> count_list (execve_line @ [NEWLINE]) DQUOTE \<and>
   ''/home/alice/bin/tool'' = ''/home/alice'' @ SEPARATOR # ''bin/tool'' \<and>
   NEWLINE \<notin> set execve_line \<and>
   parse_line (execve_line @ [NEWLINE]) = Some ''/home/alice/bin/tool'' \<and>
   loop_body ''/home/alice'' (execve_line @ [NEWLINE]) = Inr (Some ''bin/tool'') \<and>
   trace_loop ''/home/alice'' \<lparr>pending = execve_line @ NEWLINE # [], ending = EOF\<rparr> start_world =
     Some (Inr \<lparr>stdout = [''bin/tool''], spawned = [], reaped = 0\<rparr>)"
proof -
  have h: "2 \<le> count_list (execve_line @ [NEWLINE]) DQUOTE"
    by (simp add: DQUOTE_def NEWLINE_def)
  have sep: "''/home/alice/bin/tool'' = ''/home/alice'' @ SEPARATOR # ''bin/tool''"
    by (simp add: SEPARATOR_def)
  have nl: "NEWLINE \<notin> set execve_line" by (simp add: NEWLINE_def)
  from parser_ignores_call_name [OF h, of "''/home/alice''"]
  obtain p where parsed: "parse_line (execve_line @ [NEWLINE]) = Some p"
    and rep: "\<forall>suffix. p = ''/home/alice'' @ SEPARATOR # suffix \<longrightarrow>
          loop_body ''/home/alice'' (execve_line @ [NEWLINE]) = Inr (Some suffix) \<and>
          (\<forall>l rest e w. execve_line @ [NEWLINE] = l @ [NEWLINE] \<and> NEWLINE \<notin> set l \<longrightarrow>
             trace_loop ''/home/alice'' \<lparr>pending = l @ NEWLINE # rest, ending = e\<rparr> w =
             trace_loop ''/home/alice'' \<lparr>pending = rest, ending = e\<rparr> (Println suffix w))"
    by blast
  from parsed parse_execve_line have p: "p = ''/home/alice/bin/tool''" by simp
  with sep have ps: "p = ''/home/alice'' @ SEPARATOR # ''bin/tool''" by simp
  from rep ps have body: "loop_body ''/home/alice'' (execve_line @ [NEWLINE]) = Inr (Some ''bin/tool'')"
    by blast
  from rep ps nl have "trace_loop ''/home/alice''
        \<lparr>pending = execve_line @ NEWLINE # [], ending = EOF\<rparr> start_world =
      trace_loop ''/home/alice'' \<lparr>pending = [], ending = EOF\<rparr> (Println ''bin/tool'' start_world)"
    by blast
  also have "\<dots> = Some (Inr (Println ''bin/tool'' start_world))"
    by (simp add: trace_loop_partial_line)
  also have "Println ''bin/tool'' start_world = \<lparr>stdout = [''bin/tool''], spawned = [], reaped = 0\<rparr>"
    by (simp add: Println_def)
  finally have run: "trace_loop ''/home/alice''
        \<lparr>pending = execve_line @ NEWLINE # [], ending = EOF\<rparr> start_world =
      Some (Inr \<lparr>stdout = [''bin/tool''], spawned = [], reaped = 0\<rparr>)" .
  from h sep nl parsed p body run show ?thesis by blast
qed

subsection \<open>The read loop\<close>

text \<open>
  C3, order preservation without deduplication: on a stream of whole lines the loop
  prints, in the order of the lines, what the loop body prints for each of them; a
  line that prints nothing is skipped and a path that occurs in several lines is
  printed once for each of them. The witness is Scenario B: two lines with
  \<open>/home/alice/.bashrc\<close> around one with \<open>/etc/passwd\<close> print \<open>.bashrc\<close> twice.
\<close>

theorem trace_order_no_dedup:
  "\<forall>l\<in>set ls. NEWLINE \<notin> set l \<Longrightarrow>
     trace_loop homeDir \<lparr>pending = lines_stream ls, ending = EOF\<rparr> w =
       Some (Inr (w\<lparr>stdout := stdout w @
                    List.map_filter (\<lambda>l. emitted homeDir (l @ [NEWLINE])) ls\<rparr>))"
  using trace_loop_lines [of ls "[]" homeDir w] by simp

theorem trace_order_no_dedup_witness:
  "NEWLINE \<notin> set bashrc_line \<and> NEWLINE \<notin> set passwd_line \<and>
   trace_loop ''/home/alice''
     \<lparr>pending = lines_stream [bashrc_line, passwd_line, bashrc_line], ending = EOF\<rparr>
     start_world =
   Some (Inr \<lparr>stdout = [''.bashrc'', ''.bashrc''], spawned = [], reaped = 0\<rparr>)"
proof -
  have h: "\<forall>l\<in>set [bashrc_line, passwd_line, bashrc_line]. NEWLINE \<notin> set l"
    by (simp add: NEWLINE_def)
  have n: "NEWLINE \<notin> set bashrc_line \<and> NEWLINE \<notin> set passwd_line"
    by (simp add: NEWLINE_def)
  have "trace_loop ''/home/alice''
     \<lparr>pending = lines_stream [bashrc_line, passwd_line, bashrc_line], ending = EOF\<rparr>
     start_world =
   Some (Inr \<lparr>stdout = [''.bashrc'', ''.bashrc''], spawned = [], reaped = 0\<rparr>)"
    using trace_order_no_dedup [OF h, of "''/home/alice''" start_world]
      emitted_bashrc_line emitted_passwd_line
    by (simp add: map_filter_simps)
  with n show ?thesis by blast
qed

text \<open>
  C7, the emission invariant, where the code departs from it: a string is printed for a
  parsed path that is not absolute, and for one that is not inside the home directory.
  Both come from the test of C2: \<open>HasPrefix\<close> is given the home directory without the
  separator and the slice at \<open>uplen+1\<close> drops the next byte unseen. With \<open>HOME\<close> unset
  \<open>userPath\<close> is empty, every path has it as a prefix, and the relative path
  \<open>notes.txt\<close> is printed as \<open>otes.txt\<close>; with \<open>HOME=/home/alice\<close> the path
  \<open>/home/alicex/.bashrc\<close> is printed as \<open>/.bashrc\<close>. Neither path begins with the
  home directory followed by the separator.
\<close>

theorem emission_outside_home:
  "trace_loop [] \<lparr>pending = lines_stream [relative_line], ending = EOF\<rparr> start_world =
     Some (Inr \<lparr>stdout = [''otes.txt''], spawned = [], reaped = 0\<rparr>) \<and>
   parse_line (relative_line @ [NEWLINE]) = Some ''notes.txt'' \<and>
   \<not> IsAbs ''notes.txt'' \<and>
   \<not> HasPrefix ''notes.txt'' ([] @ [SEPARATOR]) \<and>
   emitted ''/home/alice'' (sibling_line @ [NEWLINE]) = Some ''/.bashrc'' \<and>
   parse_line (sibling_line @ [NEWLINE]) = Some ''/home/alicex/.bashrc'' \<and>
   \<not> HasPrefix ''/home/alicex/.bashrc'' (''/home/alice'' @ [SEPARATOR])"
  by code_simp

text \<open>
  C9: when the stream ends without a newline, what follows the last newline is never
  handed to the loop body: the loop returns what it returns on the stream without those
  bytes, even when they hold a quoted path inside the home directory.
\<close>

theorem final_partial_line_dropped:
  assumes "\<forall>l\<in>set ls. NEWLINE \<notin> set l" and "NEWLINE \<notin> set t"
  shows "trace_loop homeDir \<lparr>pending = lines_stream ls @ t, ending = EOF\<rparr> w =
           trace_loop homeDir \<lparr>pending = lines_stream ls, ending = EOF\<rparr> w \<and>
         trace_loop homeDir \<lparr>pending = lines_stream ls @ t, ending = EOF\<rparr> w \<noteq> None"
  using trace_loop_lines [OF assms, of homeDir w] trace_loop_lines [OF assms(1), of "[]" homeDir w]
  by simp

theorem final_partial_line_dropped_witness:
  "NEWLINE \<notin> set passwd_line \<and> NEWLINE \<notin> set bashrc_line \<and>
   emitted ''/home/alice'' (bashrc_line @ [NEWLINE]) = Some ''.bashrc'' \<and>
   trace_loop ''/home/alice''
     \<lparr>pending = lines_stream [passwd_line] @ bashrc_line, ending = EOF\<rparr> start_world =
   trace_loop ''/home/alice''
     \<lparr>pending = lines_stream [passwd_line], ending = EOF\<rparr> start_world \<and>
   trace_loop ''/home/alice''
     \<lparr>pending = lines_stream [passwd_line] @ bashrc_line, ending = EOF\<rparr> start_world \<noteq> None \<and>
   trace_loop ''/home/alice''
     \<lparr>pending = lines_stream [passwd_line], ending = EOF\<rparr> start_world = Some (Inr start_world)"
proof -
  have h: "\<forall>l\<in>set [passwd_line]. NEWLINE \<notin> set l" by (simp add: NEWLINE_def)
  have n: "NEWLINE \<notin> set bashrc_line" by (simp add: NEWLINE_def)
  note t = final_partial_line_dropped [OF h n, of "''/home/alice''" start_world]
  have r: "trace_loop ''/home/alice''
     \<lparr>pending = lines_stream [passwd_line], ending = EOF\<rparr> start_world = Some (Inr start_world)"
    using trace_loop_lines [OF h, of "[]" "''/home/alice''" start_world] emitted_passwd_line
    by (simp add: map_filter_simps)
  have p: "NEWLINE \<notin> set passwd_line" by (simp add: NEWLINE_def)
  from p n t r emitted_bashrc_line show ?thesis by blast
qed

subsection \<open>\<open>traceCmd\<close>\<close>

text \<open>
  C6, the preconditions: when strace is not found, whatever the target is, and when
  strace is found and the target is not, \<open>traceCmd\<close> returns after printing one line:
  nothing else is printed, no process is started and none is waited for. The check for
  strace comes first.
\<close>

theorem traceCmd_preconditions:
  "(\<not> LookPath e ''strace'' \<longrightarrow>
      traceCmd e inCmd w =
        Some (Inr (w\<lparr>stdout := stdout w @ [''Strace not found. Check your $PATH or install it.'']\<rparr>))) \<and>
   (LookPath e ''strace'' \<and> \<not> LookPath e prog \<longrightarrow>
      traceCmd e (prog # args) w =
        Some (Inr (w\<lparr>stdout := stdout w @ [''Binary not executable or doesn't exist. Cannot continue.'']\<rparr>)))"
  by (simp add: traceCmd_def Println_def)

theorem traceCmd_preconditions_witness:
  "\<not> LookPath (cat_env (\<lambda>file. False)) ''strace'' \<and>
   traceCmd (cat_env (\<lambda>file. False)) [''ls''] start_world =
     Some (Inr \<lparr>stdout = [''Strace not found. Check your $PATH or install it.''],
                spawned = [], reaped = 0\<rparr>) \<and>
   LookPath (cat_env (\<lambda>file. file = ''strace'')) ''strace'' \<and>
   \<not> LookPath (cat_env (\<lambda>file. file = ''strace'')) ''ls'' \<and>
   traceCmd (cat_env (\<lambda>file. file = ''strace'')) [''ls''] start_world =
     Some (Inr \<lparr>stdout = [''Binary not executable or doesn't exist. Cannot continue.''],
                spawned = [], reaped = 0\<rparr>)"
  using traceCmd_preconditions [of "cat_env (\<lambda>file. False)" "[''ls'']" start_world "''ls''" "[]"]
    traceCmd_preconditions [of "cat_env (\<lambda>file. file = ''strace'')" "[''ls'']" start_world "''ls''" "[]"]
  by simp

text \<open>
  C8, exit behaviour: when both lookups succeed, the pipe is there and the diagnostic
  stream ends with \<open>io.EOF\<close>, \<open>traceCmd\<close> returns normally after starting one process
  and waiting for it, and what it returns does not depend on the exit status of that
  process.
\<close>

theorem traceCmd_discards_exit_status:
  assumes "LookPath e ''strace''" and "LookPath e prog" and "StderrPipe_ok e"
    and "ending (child_stderr e (''strace'' # ''-f'' # ''-e'' # ''trace=openat'' # prog # args)) = EOF"
  shows "\<exists>out. \<forall>status.
           traceCmd (e\<lparr>child_exit := status\<rparr>) (prog # args) w =
             Some (Inr (w\<lparr>stdout := stdout w @ out,
                          spawned := spawned w @
                            [''strace'' # ''-f'' # ''-e'' # ''trace=openat'' # prog # args],
                          reaped := reaped w + 1\<rparr>))"
proof -
  let ?Args = "''strace'' # ''-f'' # ''-e'' # ''trace=openat'' # prog # args"
  let ?w = "w\<lparr>spawned := spawned w @ [?Args]\<rparr>"
  have r: "child_stderr e ?Args = \<lparr>pending = pending (child_stderr e ?Args), ending = EOF\<rparr>"
    using assms(4) by (cases "child_stderr e ?Args") simp
  obtain out where out:
    "trace_loop (userPath e) (child_stderr e ?Args) ?w = Some (Inr (?w\<lparr>stdout := stdout ?w @ out\<rparr>))"
    using trace_loop_EOF_returns [of "userPath e" "pending (child_stderr e ?Args)" ?w] r
    by auto
  have "traceCmd (e\<lparr>child_exit := status\<rparr>) (prog # args) w =
          Some (Inr (w\<lparr>stdout := stdout w @ out, spawned := spawned w @ [?Args],
                       reaped := reaped w + 1\<rparr>))" for status
    using assms(1-3) out by (simp add: traceCmd_def)
  then show ?thesis by blast
qed

theorem traceCmd_discards_exit_status_witness:
  "LookPath (cat_env (\<lambda>file. True)) ''strace'' \<and>
   LookPath (cat_env (\<lambda>file. True)) ''/bin/cat'' \<and>
   StderrPipe_ok (cat_env (\<lambda>file. True)) \<and>
   ending (child_stderr (cat_env (\<lambda>file. True))
     (''strace'' # ''-f'' # ''-e'' # ''trace=openat'' # ''/bin/cat'' # [''/etc/passwd''])) = EOF \<and>
   (\<exists>out. \<forall>status.
      traceCmd (cat_env (\<lambda>file. True)\<lparr>child_exit := status\<rparr>) (''/bin/cat'' # [''/etc/passwd''])
        start_world =
        Some (Inr (start_world\<lparr>stdout := stdout start_world @ out,
                     spawned := spawned start_world @
                       [''strace'' # ''-f'' # ''-e'' # ''trace=openat'' # ''/bin/cat'' # [''/etc/passwd'']],
                     reaped := reaped start_world + 1\<rparr>)))"
  using traceCmd_discards_exit_status [of "cat_env (\<lambda>file. True)" "''/bin/cat''"
      "[''/etc/passwd'']" start_world]
  by simp

end
